theory Spec2Isabelle
  imports Main "HOL-Library.Word"
begin

unbundle bit_operations_syntax

section \<open>Bytes, errors and the checksum\<close>

type_synonym byte = "8 word"
type_synonym uint32 = "32 word"

text \<open>
  The error values of reader.go: \<open>io.EOF\<close>, \<open>io.ErrUnexpectedEOF\<close>, the two typed
  string wrappers \<open>FormatError\<close> and \<open>UnsupportedError\<close>, the \<open>fmt.Errorf\<close> value of
  \<open>NewDecoder\<close>, an error of the decompression library, and a run-time panic
  (an index out of range).
\<close>

datatype error =
    EOF
  | ErrUnexpectedEOF
  | FormatError string
  | UnsupportedError string
  | Errorf string
  | ZlibError string
  | Panic string


text \<open>Filter types and bytes per pixel (\<open>(32 + 7) / 8\<close>), as in reader.go.\<close>

definition ftNone :: byte where "ftNone = 0"
definition ftSub :: byte where "ftSub = 1"
definition ftUp :: byte where "ftUp = 2"
definition ftAverage :: byte where "ftAverage = 3"
definition ftPaeth :: byte where "ftPaeth = 4"

section \<open>Scanline reconstruction\<close>

text \<open>
  A slice index out of range panics in Go. \<open>get\<close> is \<open>xs[i]\<close> and \<open>addAt\<close> is
  \<open>xs[i] += v\<close> on bytes (the addition wraps modulo 256).
\<close>

definition get :: "byte list \<Rightarrow> nat \<Rightarrow> error + byte" where
  "get xs i = (if i < length xs then Inr (xs ! i) else Inl (Panic ''index out of range''))"

definition addAt :: "byte list \<Rightarrow> nat \<Rightarrow> byte \<Rightarrow> error + byte list" where
  "addAt xs i v =
     (if i < length xs then Inr (xs[i := xs ! i + v]) else Inl (Panic ''index out of range''))"

text \<open>
  \<open>for_from i n body s\<close> runs \<open>body\<close> at the indices \<open>i, i + 1, ..., i + n - 1\<close>,
  threading the slice and stopping at the first panic: the counted loops
  \<open>for i := lo; i < hi; i++\<close> of \<open>DecodeRow\<close>, none of which changes its bound.
\<close>

primrec for_from :: "nat \<Rightarrow> nat \<Rightarrow> (nat \<Rightarrow> 's \<Rightarrow> error + 's) \<Rightarrow> 's \<Rightarrow> error + 's" where
  "for_from i 0 body s = Inr s"
| "for_from i (Suc n) body s =
     (case body i s of Inl e \<Rightarrow> Inl e | Inr s' \<Rightarrow> for_from (Suc i) n body s')"

text \<open>\<open>case ftSub\<close>: \<open>for i := bpp; i < len(cdat); i++ { cdat[i] += cdat[i-bpp] }\<close>.\<close>

definition subBody :: "nat \<Rightarrow> nat \<Rightarrow> byte list \<Rightarrow> error + byte list" where
  "subBody bpp i cdat =
     (case get cdat (i - bpp) of Inl e \<Rightarrow> Inl e | Inr l \<Rightarrow> addAt cdat i l)"

definition filterSub :: "nat \<Rightarrow> byte list \<Rightarrow> error + byte list" where
  "filterSub bpp cdat = for_from bpp (length cdat - bpp) (subBody bpp) cdat"

text \<open>\<open>case ftUp\<close>: \<open>for i, p := range pdat { cdat[i] += p }\<close>.\<close>

definition upBody :: "byte list \<Rightarrow> nat \<Rightarrow> byte list \<Rightarrow> error + byte list" where
  "upBody pdat i cdat = addAt cdat i (pdat ! i)"

definition filterUp :: "byte list \<Rightarrow> byte list \<Rightarrow> error + byte list" where
  "filterUp cdat pdat = for_from 0 (length pdat) (upBody pdat) cdat"

text \<open>
  \<open>case ftAverage\<close>: the first pixel adds \<open>pdat[i] / 2\<close> (a \<open>uint8\<close> division); the
  others add \<open>uint8((int(cdat[i-bpp]) + int(pdat[i])) / 2)\<close>, where the sum and the
  division are on \<open>int\<close> and only the conversion truncates to a byte.
\<close>

definition avgFirstBody :: "byte list \<Rightarrow> nat \<Rightarrow> byte list \<Rightarrow> error + byte list" where
  "avgFirstBody pdat i cdat =
     (case get pdat i of Inl e \<Rightarrow> Inl e | Inr p \<Rightarrow> addAt cdat i (p div 2))"

definition avgRestBody :: "nat \<Rightarrow> byte list \<Rightarrow> nat \<Rightarrow> byte list \<Rightarrow> error + byte list" where
  "avgRestBody bpp pdat i cdat =
     (case get cdat (i - bpp) of Inl e \<Rightarrow> Inl e
      | Inr l \<Rightarrow>
          (case get pdat i of Inl e \<Rightarrow> Inl e
           | Inr p \<Rightarrow> addAt cdat i (word_of_int ((uint l + uint p) div 2))))"

definition filterAverage :: "nat \<Rightarrow> byte list \<Rightarrow> byte list \<Rightarrow> error + byte list" where
  "filterAverage bpp cdat pdat =
     (case for_from 0 bpp (avgFirstBody pdat) cdat of Inl e \<Rightarrow> Inl e
      | Inr cdat' \<Rightarrow> for_from bpp (length cdat' - bpp) (avgRestBody bpp pdat) cdat')"

text \<open>
  Modelled from the spec: \<open>filterPaeth\<close>, which \<open>DecodeRow\<close> calls for \<open>case ftPaeth\<close>
  and which is not among the source files. Section 4.5 of the specification gives the
  predictor \<open>p = a + b - c\<close> with all arithmetic modulo 256, the predicted value being
  whichever of \<open>a\<close>, \<open>b\<close>, \<open>c\<close> is closest to \<open>p\<close> by absolute distance, ties
  going to \<open>a\<close>, then \<open>b\<close>, then \<open>c\<close>. The distance of two byte values is the
  absolute difference of the numbers they denote.
\<close>

definition dist :: "byte \<Rightarrow> byte \<Rightarrow> int" where
  "dist p x = \<bar>uint p - uint x\<bar>"

definition paeth :: "byte \<Rightarrow> byte \<Rightarrow> byte \<Rightarrow> byte" where
  "paeth a b c =
     (let p = a + b - c; pa = dist p a; pb = dist p b; pc = dist p c
      in if pa \<le> pb \<and> pa \<le> pc then a else if pb \<le> pc then b else c)"

text \<open>
  Modelled from the spec: the in-place reconstruction of a Paeth row, with
  \<open>a = cdat[i-bpp]\<close> (0 if absent), \<open>b = pdat[i]\<close>, \<open>c = pdat[i-bpp]\<close> (0 if absent)
  and \<open>cdat[i] += predicted\<close>.
\<close>

definition paethBody :: "nat \<Rightarrow> byte list \<Rightarrow> nat \<Rightarrow> byte list \<Rightarrow> error + byte list" where
  "paethBody bpp pdat i cdat =
     (case (if i < bpp then Inr 0 else get cdat (i - bpp)) of Inl e \<Rightarrow> Inl e
      | Inr a \<Rightarrow>
          (case get pdat i of Inl e \<Rightarrow> Inl e
           | Inr b \<Rightarrow>
               (case (if i < bpp then Inr 0 else get pdat (i - bpp)) of Inl e \<Rightarrow> Inl e
                | Inr c \<Rightarrow> addAt cdat i (paeth a b c))))"

definition filterPaeth :: "byte list \<Rightarrow> byte list \<Rightarrow> nat \<Rightarrow> error + byte list" where
  "filterPaeth cdat pdat bpp = for_from 0 (length cdat) (paethBody bpp pdat) cdat"

text \<open>
  The \<open>switch d.cr[0]\<close> of \<open>DecodeRow\<close>: the reconstructed \<open>cdat\<close>, or the error of an
  unknown filter type.
\<close>

definition applyFilter :: "nat \<Rightarrow> byte \<Rightarrow> byte list \<Rightarrow> byte list \<Rightarrow> error + byte list" where
  "applyFilter bpp ft cdat pdat =
     (if ft = ftNone then Inr cdat
      else if ft = ftSub then filterSub bpp cdat
      else if ft = ftUp then filterUp cdat pdat
      else if ft = ftAverage then filterAverage bpp cdat pdat
      else if ft = ftPaeth then filterPaeth cdat pdat bpp
      else Inl (FormatError ''bad filter type''))"

text \<open>
  The reading of the Average filter in which the sum of the left and upper bytes is
  itself taken modulo 256 before it is halved. It is not what \<open>DecodeRow\<close> computes; it
  is defined to be compared with \<open>avgRestBody\<close>.
\<close>

definition averageWrapped :: "byte \<Rightarrow> byte \<Rightarrow> byte" where
  "averageWrapped l p = (l + p) div 2"

section \<open>The checksum and the input stream\<close>

text \<open>
  \<open>hash/crc32\<close> with the IEEE polynomial, bit by bit: \<open>Reset\<close> sets the state to 0,
  \<open>Write p\<close> replaces it by \<open>crcUpdate crc p\<close> and \<open>Sum32\<close> returns it.
\<close>

definition crcStep :: "uint32 \<Rightarrow> uint32" where
  "crcStep c = (if bit c 0 then drop_bit 1 c XOR 0xEDB88320 else drop_bit 1 c)"

definition crcByte :: "uint32 \<Rightarrow> byte \<Rightarrow> uint32" where
  "crcByte c b = (crcStep ^^ 8) (c XOR ucast b)"

definition crcUpdate :: "uint32 \<Rightarrow> byte list \<Rightarrow> uint32" where
  "crcUpdate c bs = NOT (foldl crcByte (NOT c) bs)"

text \<open>\<open>binary.BigEndian.Uint32\<close> of a slice of four bytes.\<close>

definition be32 :: "byte list \<Rightarrow> uint32" where
  "be32 b = push_bit 24 (ucast (b ! 0)) OR push_bit 16 (ucast (b ! 1)) OR
            push_bit 8 (ucast (b ! 2)) OR ucast (b ! 3)"

text \<open>
  The input \<open>io.Reader\<close> is modelled as the list of the bytes not yet read, a reader that
  delivers what is asked for as long as bytes remain (a file or an in-memory reader).
  \<open>readFull r n\<close> is \<open>io.ReadFull\<close> on a buffer of \<open>n\<close> bytes: the error, the bytes read
  and the rest of the stream. \<open>rawRead r k\<close> is one \<open>Read\<close> call on a buffer of \<open>k > 0\<close>
  bytes.
\<close>

definition readFull :: "byte list \<Rightarrow> nat \<Rightarrow> error option \<times> byte list \<times> byte list" where
  "readFull r n =
     (if n = 0 then (None, [], r)
      else if r = [] then (Some EOF, [], r)
      else if length r < n then (Some ErrUnexpectedEOF, r, [])
      else (None, take n r, drop n r))"

definition rawRead :: "byte list \<Rightarrow> nat \<Rightarrow> error option \<times> byte list \<times> byte list" where
  "rawRead r k = (if r = [] then (Some EOF, [], r) else (None, take k r, drop k r))"

text \<open>Writing \<open>bs\<close> at the start of a buffer, as a read into \<open>buf[:n]\<close> does.\<close>

definition fill :: "byte list \<Rightarrow> byte list \<Rightarrow> byte list" where
  "fill bs buf = bs @ drop (length bs) buf"

section \<open>The decoder state\<close>

definition dsSeenIEND :: nat where "dsSeenIEND = 3"

definition cbInvalid :: nat where "cbInvalid = 0"
definition cbTCA8 :: nat where "cbTCA8 = 1"

definition ctTrueColorAlpha :: byte where "ctTrueColorAlpha = 6"


definition tagIHDR :: "byte list" where "tagIHDR = [0x49, 0x48, 0x44, 0x52]"
definition tagIDAT :: "byte list" where "tagIDAT = [0x49, 0x44, 0x41, 0x54]"
definition tagIEND :: "byte list" where "tagIEND = [0x49, 0x45, 0x4E, 0x44]"

record decoder =
  rd :: "byte list"
  crc :: uint32
  width :: int
  height :: int
  depth :: int
  cb :: nat
  stage :: nat
  idatLength :: uint32
  tmp :: "byte list"

text \<open>\<open>io.ReadFull(d.r, d.tmp[:n])\<close>.\<close>

definition readTmp :: "decoder \<Rightarrow> nat \<Rightarrow> error option \<times> decoder" where
  "readTmp d n =
     (case readFull (rd d) n of
        (e, bs, rest) \<Rightarrow> (e, d\<lparr>rd := rest, tmp := fill bs (tmp d)\<rparr>))"

definition verifyChecksum :: "decoder \<Rightarrow> error option \<times> decoder" where
  "verifyChecksum d =
     (case readTmp d 4 of
        (Some e, d1) \<Rightarrow> (Some e, d1)
      | (None, d1) \<Rightarrow>
          if be32 (take 4 (tmp d1)) \<noteq> crc d1
          then (Some (FormatError ''invalid checksum''), d1)
          else (None, d1))"

text \<open>
  Go's \<open>int\<close> has 32 or 64 bits, depending on the platform: \<open>bits\<close> is a parameter of
  the functions that convert to \<open>int\<close>. \<open>toInt bits x\<close> truncates to \<open>bits\<close> bits in
  two's complement, and \<open>quo\<close> is Go's division, which truncates towards zero.
\<close>

definition toInt :: "nat \<Rightarrow> int \<Rightarrow> int" where
  "toInt bits x = signed_take_bit (bits - 1) x"

definition quo :: "int \<Rightarrow> int \<Rightarrow> int" where
  "quo a b = sgn a * sgn b * (\<bar>a\<bar> div \<bar>b\<bar>)"

text \<open>\<open>%d\<close> of a number that is not negative.\<close>

fun showNat :: "nat \<Rightarrow> string" where
  "showNat n =
     (if n < 10 then [''0123456789'' ! n]
      else showNat (n div 10) @ [''0123456789'' ! (n mod 10)])"

declare showNat.simps [simp del]

definition bytesToString :: "byte list \<Rightarrow> string" where
  "bytesToString bs = map (\<lambda>b. char_of (unat b)) bs"

definition parseIHDR :: "nat \<Rightarrow> uint32 \<Rightarrow> decoder \<Rightarrow> error option \<times> decoder" where
  "parseIHDR bits len d =
     (if len \<noteq> 13 then (Some (FormatError ''bad IHDR length''), d)
      else case readTmp d 13 of
        (Some e, d1) \<Rightarrow> (Some e, d1)
      | (None, d1) \<Rightarrow>
          let d2 = d1\<lparr>crc := crcUpdate (crc d1) (take 13 (tmp d1))\<rparr>; t = tmp d2 in
          if t ! 10 \<noteq> 0 then (Some (UnsupportedError ''compression method''), d2)
          else if t ! 11 \<noteq> 0 then (Some (UnsupportedError ''filter method''), d2)
          else
            let w = sint (be32 (take 4 t)); h = sint (be32 (take 4 (drop 4 t))) in
            if w \<le> 0 \<or> h \<le> 0 then (Some (FormatError ''non-positive dimension''), d2)
            else
              let nPixels64 = toInt 64 (w * h); nPixels = toInt bits nPixels64 in
              if nPixels64 \<noteq> nPixels then (Some (UnsupportedError ''dimension overflow''), d2)
              else if nPixels \<noteq> quo (toInt bits (nPixels * 8)) 8
              then (Some (UnsupportedError ''dimension overflow''), d2)
              else
                let d3 = d2\<lparr>cb := cbInvalid, depth := uint (t ! 8)\<rparr>;
                    d4 = (if depth d3 = 8 \<and> t ! 9 = ctTrueColorAlpha
                          then d3\<lparr>cb := cbTCA8\<rparr> else d3) in
                if cb d4 = cbInvalid
                then (Some (UnsupportedError (''bit depth '' @ showNat (unat (t ! 8)) @
                                              '', color type '' @ showNat (unat (t ! 9)))), d4)
                else verifyChecksum (d4\<lparr>width := w, height := h\<rparr>))"

text \<open>
  The loop \<open>for d.idatLength == 0\<close> of \<open>Read\<close>: the checksum of the exhausted chunk,
  then the length and type of the next one. Each round consumes twelve bytes.
\<close>

function nextIDAT :: "decoder \<Rightarrow> error option \<times> decoder" where
  "nextIDAT d =
     (if idatLength d \<noteq> 0 then (None, d)
      else case verifyChecksum d of
        (Some e, d1) \<Rightarrow> (Some e, d1)
      | (None, d1) \<Rightarrow>
          (case readTmp d1 8 of
             (Some e, d2) \<Rightarrow> (Some e, d2)
           | (None, d2) \<Rightarrow>
               let d3 = d2\<lparr>idatLength := be32 (take 4 (tmp d2))\<rparr> in
               if take 4 (drop 4 (tmp d3)) \<noteq> tagIDAT
               then (Some (FormatError ''not enough pixel data''), d3)
               else nextIDAT (d3\<lparr>crc := crcUpdate 0 (take 4 (drop 4 (tmp d3)))\<rparr>)))"
  by pat_completeness auto
termination
  by (relation "measure (\<lambda>d. length (rd d))")
     (auto simp: verifyChecksum_def readTmp_def readFull_def split: if_splits prod.splits option.splits)

declare nextIDAT.simps [simp del]

text \<open>
  \<open>(d *decoder) Read(p)\<close>: the number of bytes read, the error, the buffer and the
  state afterwards. \<open>int(d.idatLength)\<close> is negative only where \<open>int\<close> has 32 bits.
\<close>

definition lenInt :: "nat \<Rightarrow> uint32 \<Rightarrow> int" where
  "lenInt bits l = toInt bits (uint l)"

definition Read :: "nat \<Rightarrow> decoder \<Rightarrow> byte list \<Rightarrow> (nat \<times> error option) \<times> byte list \<times> decoder" where
  "Read bits d p =
     (if length p = 0 then ((0, None), p, d)
      else case nextIDAT d of
        (Some e, d1) \<Rightarrow> ((0, Some e), p, d1)
      | (None, d1) \<Rightarrow>
          if lenInt bits (idatLength d1) < 0
          then ((0, Some (UnsupportedError ''IDAT chunk length overflow'')), p, d1)
          else
            (case rawRead (rd d1) (min (length p) (nat (lenInt bits (idatLength d1)))) of
               (err, bs, rest) \<Rightarrow>
                 ((length bs, err), fill bs p,
                  d1\<lparr>rd := rest, crc := crcUpdate (crc d1) bs,
                     idatLength := idatLength d1 - of_nat (length bs)\<rparr>)))"

definition readIEND :: "decoder \<Rightarrow> error option \<times> decoder" where
  "readIEND d =
     (case readTmp d 8 of
        (Some e, d1) \<Rightarrow> (Some e, d1)
      | (None, d1) \<Rightarrow>
          let len = be32 (take 4 (tmp d1));
              header = take 4 (drop 4 (tmp d1));
              d2 = d1\<lparr>crc := crcUpdate 0 header\<rparr> in
          if header \<noteq> tagIEND
          then (Some (FormatError (''not IEND '' @ bytesToString header)), d2)
          else if len \<noteq> 0 then (Some (FormatError ''bad IEND length''), d2)
          else verifyChecksum d2)"


text \<open>
  A session state in the middle of the data chunks whose remaining chunk length has its
  top bit set: a chunk longer than \<open>2^31 - 1\<close> bytes, which a header can declare.
\<close>

definition overflowDecoder :: decoder where
  "overflowDecoder = \<lparr>rd = [1, 2, 3], crc = 0, width = 1, height = 1, depth = 8, cb = 1,
     stage = 2, idatLength = 0x80000000, tmp = replicate 768 0\<rparr>"

definition exhaustedDecoder :: decoder where
  "exhaustedDecoder = \<lparr>rd = [0, 0, 0, 0, 0, 0, 0, 2, 0x49, 0x44, 0x41, 0x54, 7, 8, 9],
     crc = 0, width = 1, height = 1, depth = 8, cb = 1, stage = 2, idatLength = 0,
     tmp = replicate 768 0\<rparr>"

definition zeroWidthDecoder :: decoder where
  "zeroWidthDecoder = \<lparr>rd = [0, 0, 0, 0, 0, 0, 0, 1, 8, 6, 0, 0, 0, 1, 2, 3, 4],
     crc = 0, width = 0, height = 0, depth = 0, cb = 0, stage = 1, idatLength = 0,
     tmp = replicate 768 0\<rparr>"

section \<open>Opening a stream: the chunk-order state machine\<close>













text \<open>
  \<open>zlib.NewReader\<close>, \<open>io.ReadFull\<close> from the decompressing reader and its \<open>Close\<close>
  belong to the compression library, which reads the compressed bytes through \<open>Read\<close>
  of the \<open>decoder\<close>. The library is a parameter of the model: a state of some type
  \<open>'z\<close> and three functions. \<open>zReadFull z d n\<close> is a read into a buffer of \<open>n\<close>
  bytes: the error, the bytes delivered, and the states of the reader and of the
  \<open>decoder\<close> it has read from.
\<close>

record 'z zlib =
  zNewReader :: "decoder \<Rightarrow> (error + 'z) \<times> decoder"
  zReadFull :: "'z \<Rightarrow> decoder \<Rightarrow> nat \<Rightarrow> (error option \<times> byte list) \<times> 'z \<times> decoder"
  zClose :: "'z \<Rightarrow> error option \<times> 'z"

text \<open>
  The two row buffers are arrays on a heap, and \<open>cr\<close> and \<open>pr\<close> are references to
  them, so that swapping the references and copying the bytes are different things. A
  slice is a reference and an offset: \<open>d.cr[1:]\<close> is \<open>Slice (cr D) 1\<close>.
\<close>

record 'z Decoder =
  dec_d :: decoder
  zlibR :: 'z
  bytesPerPixel :: nat
  cr :: nat
  pr :: nat
  dec_y :: int
  heap :: "byte list list"

datatype slice = Slice nat nat

definition sliceBytes :: "byte list list \<Rightarrow> slice \<Rightarrow> byte list" where
  "sliceBytes hp s = (case s of Slice a off \<Rightarrow> drop off (hp ! a))"



definition DecodeRow :: "'z zlib \<Rightarrow> 'z Decoder \<Rightarrow> (error + slice) \<times> 'z Decoder" where
  "DecodeRow Z D =
     (if height (dec_d D) \<le> dec_y D then (Inl EOF, D)
      else case zReadFull Z (zlibR D) (dec_d D) (length (heap D ! cr D)) of
        ((err, bs), z', d') \<Rightarrow>
          let buf = heap D ! cr D;
              D1 = D\<lparr>zlibR := z', dec_d := d',
                     heap := (heap D)[cr D := fill (take (length buf) bs) buf]\<rparr> in
          (case err of
             Some e \<Rightarrow>
               if e = EOF \<or> e = ErrUnexpectedEOF
               then (Inl (FormatError ''not enough pixel data''), D1)
               else (Inl e, D1)
           | None \<Rightarrow>
               (case (heap D1 ! cr D1, heap D1 ! pr D1) of
                  (ft # cdat, pt # pdat) \<Rightarrow>
                    (case applyFilter (bytesPerPixel D1) ft cdat pdat of
                       Inl e \<Rightarrow> (Inl e, D1)
                     | Inr cdat' \<Rightarrow>
                         (Inr (Slice (cr D1) 1),
                          D1\<lparr>heap := (heap D1)[cr D1 := ft # cdat'],
                             pr := cr D1, cr := pr D1, dec_y := dec_y D1 + 1\<rparr>))
                | _ \<Rightarrow> (Inl (Panic ''slice bounds out of range''), D1))))"

definition Close :: "'z zlib \<Rightarrow> 'z Decoder \<Rightarrow> error option \<times> 'z Decoder" where
  "Close Z D =
     (if stage (dec_d D) = dsSeenIEND then (None, D)
      else case zClose Z (zlibR D) of
        (Some e, z') \<Rightarrow> (Some e, D\<lparr>zlibR := z'\<rparr>)
      | (None, z') \<Rightarrow>
          (case verifyChecksum (dec_d D) of
             (Some e, d1) \<Rightarrow> (Some e, D\<lparr>zlibR := z', dec_d := d1\<rparr>)
           | (None, d1) \<Rightarrow>
               (case readIEND d1 of (e, d2) \<Rightarrow> (e, D\<lparr>zlibR := z', dec_d := d2\<rparr>))))"



text \<open>A session of a 1 by 1 image after its row, at the end of a data chunk.\<close>

definition closeDecoder :: "(byte list) Decoder" where
  "closeDecoder = \<lparr>dec_d = exhaustedDecoder, zlibR = [], bytesPerPixel = 4, cr = 0, pr = 1,
     dec_y = 1, heap = [[0, 0, 0, 0, 0], [0, 1, 2, 3, 4]]\<rparr>"

(*DEFS*)

section \<open>Properties of the filters\<close>

lemma for_from_pointwise:
  assumes body: "\<And>j c. i \<le> j \<Longrightarrow> j < i + n \<Longrightarrow> length c = L \<Longrightarrow> body j c = Inr (c[j := c ! j + g j c])"
      and dep: "\<And>j c c'. i \<le> j \<Longrightarrow> j < i + n \<Longrightarrow> length c = L \<Longrightarrow> length c' = L \<Longrightarrow>
                 (\<forall>k<j. c ! k = c' ! k) \<Longrightarrow> g j c = g j c'"
      and bound: "i + n \<le> L" and len: "length (s :: byte list) = L"
  shows "\<exists>r. for_from i n body s = Inr r \<and> length r = L \<and> (\<forall>k<i. r ! k = s ! k) \<and>
             (\<forall>k. i + n \<le> k \<longrightarrow> k < L \<longrightarrow> r ! k = s ! k) \<and>
             (\<forall>k. i \<le> k \<longrightarrow> k < i + n \<longrightarrow> r ! k = s ! k + g k r)"
  using assms
proof (induction n arbitrary: i s)
  case 0
  show ?case using "0.prems"(4) by simp
next
  case (Suc n)
  let ?s1 = "s[i := s ! i + g i s]"
  have iL: "i < L" using Suc.prems(3) by simp
  have b: "body i s = Inr ?s1"
    by (rule Suc.prems(1)) (simp_all add: Suc.prems(4))
  have "\<exists>r. for_from (Suc i) n body ?s1 = Inr r \<and> length r = L \<and> (\<forall>k<Suc i. r ! k = ?s1 ! k) \<and>
             (\<forall>k. Suc i + n \<le> k \<longrightarrow> k < L \<longrightarrow> r ! k = ?s1 ! k) \<and>
             (\<forall>k. Suc i \<le> k \<longrightarrow> k < Suc i + n \<longrightarrow> r ! k = ?s1 ! k + g k r)"
  proof (rule Suc.IH)
    fix j and c :: "byte list" assume "Suc i \<le> j" "j < Suc i + n" "length c = L"
    then show "body j c = Inr (c[j := c ! j + g j c])"
      by (intro Suc.prems(1)) simp_all
  next
    fix j and c c' :: "byte list" assume "Suc i \<le> j" "j < Suc i + n" "length c = L" "length c' = L" "\<forall>k<j. c ! k = c' ! k"
    then show "g j c = g j c'"
      by (intro Suc.prems(2)) simp_all
  next
    show "Suc i + n \<le> L" using Suc.prems(3) by simp
    show "length ?s1 = L" by (simp add: Suc.prems(4))
  qed
  then obtain r where r1: "for_from (Suc i) n body ?s1 = Inr r" and r2: "length r = L"
      and r3: "\<forall>k<Suc i. r ! k = ?s1 ! k"
      and r4: "\<forall>k. Suc i + n \<le> k \<longrightarrow> k < L \<longrightarrow> r ! k = ?s1 ! k"
      and r5: "\<forall>k. Suc i \<le> k \<longrightarrow> k < Suc i + n \<longrightarrow> r ! k = ?s1 ! k + g k r" by blast
  have low: "\<forall>k<i. r ! k = s ! k" using r3 by simp
  have low': "\<forall>k<i. s ! k = r ! k" using low by simp
  have gi: "g i s = g i r"
    by (rule Suc.prems(2)) (simp_all add: Suc.prems(4) r2 low')
  have "r ! i = ?s1 ! i" using r3 by simp
  then have "r ! i = s ! i + g i s" using iL by (simp add: Suc.prems(4))
  then have ati: "r ! i = s ! i + g i r" by (simp only: gi)
  have rest: "\<forall>k. Suc i \<le> k \<longrightarrow> k < Suc i + n \<longrightarrow> r ! k = s ! k + g k r"
  proof (intro allI impI)
    fix k assume k: "Suc i \<le> k" "k < Suc i + n"
    then have "r ! k = ?s1 ! k + g k r" using r5 by blast
    moreover have "?s1 ! k = s ! k" using k by simp
    ultimately show "r ! k = s ! k + g k r" by simp
  qed
  have mid: "\<forall>k. i \<le> k \<longrightarrow> k < i + Suc n \<longrightarrow> r ! k = s ! k + g k r"
  proof (intro allI impI)
    fix k assume k: "i \<le> k" "k < i + Suc n"
    show "r ! k = s ! k + g k r"
    proof (cases "k = i")
      case True then show ?thesis using ati by simp
    next
      case False
      then have "Suc i \<le> k" "k < Suc i + n" using k by simp_all
      then show ?thesis using rest by blast
    qed
  qed
  have hi: "\<forall>k. i + Suc n \<le> k \<longrightarrow> k < L \<longrightarrow> r ! k = s ! k"
  proof (intro allI impI)
    fix k assume k: "i + Suc n \<le> k" "k < L"
    then have "r ! k = ?s1 ! k" using r4 by simp
    then show "r ! k = s ! k" using k by simp
  qed
  have "for_from i (Suc n) body s = Inr r" by (simp add: b r1)
  then show ?case using r2 low mid hi by blast
qed

lemma filterAverage_pointwise:
  assumes len: "length pdat = length cdat" and bpp: "0 < bpp" "bpp \<le> length cdat"
  shows "\<exists>r. filterAverage bpp cdat pdat = Inr r \<and> length r = length cdat \<and>
           (\<forall>i<bpp. r ! i = cdat ! i + pdat ! i div 2) \<and>
           (\<forall>i. bpp \<le> i \<longrightarrow> i < length cdat \<longrightarrow>
               r ! i = cdat ! i + word_of_int ((uint (r ! (i - bpp)) + uint (pdat ! i)) div 2))"
proof -
  let ?L = "length cdat"
  have "\<exists>r. for_from 0 bpp (avgFirstBody pdat) cdat = Inr r \<and> length r = ?L \<and>
            (\<forall>k<0. r ! k = cdat ! k) \<and>
            (\<forall>k. 0 + bpp \<le> k \<longrightarrow> k < ?L \<longrightarrow> r ! k = cdat ! k) \<and>
            (\<forall>k. 0 \<le> k \<longrightarrow> k < 0 + bpp \<longrightarrow> r ! k = cdat ! k + (\<lambda>j c. pdat ! j div 2) k r)"
  proof (rule for_from_pointwise)
    fix j and c :: "byte list" assume "j < 0 + bpp" "length c = ?L"
    then show "avgFirstBody pdat j c = Inr (c[j := c ! j + pdat ! j div 2])"
      using bpp len by (simp add: avgFirstBody_def get_def addAt_def)
  qed (use bpp in simp_all)
  then obtain r1 where f1: "for_from 0 bpp (avgFirstBody pdat) cdat = Inr r1"
    and l1: "length r1 = ?L"
    and hi1: "\<forall>k. bpp \<le> k \<longrightarrow> k < ?L \<longrightarrow> r1 ! k = cdat ! k"
    and lo1: "\<forall>k<bpp. r1 ! k = cdat ! k + pdat ! k div 2" by auto
  let ?g = "\<lambda>j (c :: byte list). (word_of_int ((uint (c ! (j - bpp)) + uint (pdat ! j)) div 2) :: byte)"
  have "\<exists>r. for_from bpp (?L - bpp) (avgRestBody bpp pdat) r1 = Inr r \<and> length r = ?L \<and>
            (\<forall>k<bpp. r ! k = r1 ! k) \<and>
            (\<forall>k. bpp + (?L - bpp) \<le> k \<longrightarrow> k < ?L \<longrightarrow> r ! k = r1 ! k) \<and>
            (\<forall>k. bpp \<le> k \<longrightarrow> k < bpp + (?L - bpp) \<longrightarrow> r ! k = r1 ! k + ?g k r)"
  proof (rule for_from_pointwise)
    fix j and c :: "byte list" assume "bpp \<le> j" "j < bpp + (?L - bpp)" "length c = ?L"
    then show "avgRestBody bpp pdat j c = Inr (c[j := c ! j + ?g j c])"
      using bpp len by (simp add: avgRestBody_def get_def addAt_def)
  next
    fix j and c c' :: "byte list"
    assume "bpp \<le> j" "\<forall>k<j. c ! k = c' ! k"
    then have "c ! (j - bpp) = c' ! (j - bpp)" using bpp by simp
    then show "?g j c = ?g j c'" by simp
  qed (use bpp l1 in simp_all)
  then obtain r where f2: "for_from bpp (?L - bpp) (avgRestBody bpp pdat) r1 = Inr r"
    and l2: "length r = ?L"
    and lo2: "\<forall>k<bpp. r ! k = r1 ! k"
    and mid2: "\<forall>k. bpp \<le> k \<longrightarrow> k < bpp + (?L - bpp) \<longrightarrow> r ! k = r1 ! k + ?g k r" by blast
  have res: "filterAverage bpp cdat pdat = Inr r"
    by (simp add: filterAverage_def f1 l1 f2)
  have A: "\<forall>i<bpp. r ! i = cdat ! i + pdat ! i div 2" using lo1 lo2 by simp
  have B: "\<forall>i. bpp \<le> i \<longrightarrow> i < ?L \<longrightarrow>
               r ! i = cdat ! i + word_of_int ((uint (r ! (i - bpp)) + uint (pdat ! i)) div 2)"
  proof (intro allI impI)
    fix i assume i: "bpp \<le> i" "i < ?L"
    then have "r ! i = r1 ! i + ?g i r" using mid2 by simp
    moreover have "r1 ! i = cdat ! i" using hi1 i by simp
    ultimately show "r ! i = cdat ! i + word_of_int ((uint (r ! (i - bpp)) + uint (pdat ! i)) div 2)"
      by simp
  qed
  show ?thesis using res l2 A B by blast
qed

text \<open>
  Claim C1, as amended. A row with filter type 3 (Average) whose data bytes are \<open>cdat\<close>,
  over a previous row \<open>pdat\<close> of the same length, is reconstructed to the row \<open>r\<close> with
  \<open>r[i] = cdat[i] + pdat[i] / 2\<close> for \<open>i < 4\<close> and
  \<open>r[i] = cdat[i] + (r[i-4] + pdat[i]) / 2\<close> for \<open>i \<ge> 4\<close>, where \<open>r[i-4]\<close> is the
  already reconstructed left byte, the sum and the halving are computed on unbounded
  integers (no wrap-around), and only the final addition to \<open>cdat[i]\<close> is modulo 256.
\<close>

theorem average_row:
  assumes "length pdat = length cdat" and "4 \<le> length cdat"
  shows "\<exists>r. applyFilter 4 ftAverage cdat pdat = Inr r \<and> length r = length cdat \<and>
           (\<forall>i<4. r ! i = cdat ! i + pdat ! i div 2) \<and>
           (\<forall>i. 4 \<le> i \<longrightarrow> i < length cdat \<longrightarrow>
               r ! i = cdat ! i + word_of_int ((uint (r ! (i - 4)) + uint (pdat ! i)) div 2))"
proof -
  have "applyFilter 4 ftAverage cdat pdat = filterAverage 4 cdat pdat"
    by (simp add: applyFilter_def ftAverage_def ftNone_def ftSub_def ftUp_def)
  then show ?thesis using filterAverage_pointwise[of pdat cdat 4] assms by simp
qed

text \<open>The hypotheses of \<open>average_row\<close> hold of a row of two pixels.\<close>

theorem average_row_witness:
  "\<exists>r. applyFilter 4 ftAverage [200, 0, 0, 0, 0, 0, 0, 0] [0, 0, 0, 0, 100, 0, 0, 0] = Inr r \<and>
       r ! 4 = 150"
proof -
  let ?c = "[200, 0, 0, 0, 0, 0, 0, 0] :: byte list"
  let ?p = "[0, 0, 0, 0, 100, 0, 0, 0] :: byte list"
  obtain r where r: "applyFilter 4 ftAverage ?c ?p = Inr r"
    and f: "\<forall>i<4. r ! i = ?c ! i + ?p ! i div 2"
    and g: "\<forall>i. 4 \<le> i \<longrightarrow> i < length ?c \<longrightarrow>
               r ! i = ?c ! i + word_of_int ((uint (r ! (i - 4)) + uint (?p ! i)) div 2)"
    using average_row[of ?p ?c] by auto
  have "r ! 0 = 200" using f by simp
  moreover have "r ! 4 = ?c ! 4 + word_of_int ((uint (r ! (4 - 4)) + uint (?p ! 4)) div 2)"
    using g by simp
  ultimately have "r ! 4 = 150" by simp
  then show ?thesis using r by blast
qed

text \<open>
  Claim C1 as stated fails: with a left byte 200 and an upper byte 100 the code adds
  \<open>(200 + 100) / 2 = 150\<close>, while a sum taken modulo 256 would give \<open>44 / 2 = 22\<close>.
\<close>

theorem average_wrapped_counterexample:
  "applyFilter 4 ftAverage [200, 0, 0, 0, 0, 0, 0, 0] [0, 0, 0, 0, 100, 0, 0, 0]
     = Inr [200, 0, 0, 0, 150, 0, 0, 0] \<and>
   (150 :: byte) \<noteq> 0 + averageWrapped 200 100"
  by (simp add: averageWrapped_def) code_simp

section \<open>Properties of the compressed-stream adapter\<close>

lemma nextIDAT_nonzero: "idatLength d \<noteq> 0 \<Longrightarrow> nextIDAT d = (None, d)"
  by (simp add: nextIDAT.simps)

text \<open>
  Claim C10. \<open>Read\<close> with an empty buffer returns \<open>(0, nil)\<close> and leaves the whole
  session state as it was, whatever the state is: also when the current chunk is
  exhausted, so that nothing is verified and nothing is read from the stream.
\<close>

theorem Read_empty_buffer: "Read bits d [] = ((0, None), [], d)"
  by (simp add: Read_def)

text \<open>
  Claim C9, as amended. When \<open>Read\<close> is called with a buffer that is not empty and the
  remaining chunk length, after the loop that moves to the next data chunk, is negative
  as an \<open>int\<close>, it returns the error \<open>IDAT chunk length overflow\<close> with \<open>n = 0\<close>, and
  the buffer is unchanged.
\<close>

theorem Read_length_overflow:
  assumes "p \<noteq> []" and "nextIDAT d = (None, d1)" and "lenInt bits (idatLength d1) < 0"
  shows "Read bits d p = ((0, Some (UnsupportedError ''IDAT chunk length overflow'')), p, d1)"
  using assms by (simp add: Read_def)

text \<open>On a platform with 32-bit \<open>int\<close>, at a remaining length of \<open>2^31\<close>.\<close>

theorem Read_length_overflow_witness:
  "Read 32 overflowDecoder [0] =
     ((0, Some (UnsupportedError ''IDAT chunk length overflow'')), [0], overflowDecoder)"
proof -
  have n: "nextIDAT overflowDecoder = (None, overflowDecoder)"
    by (rule nextIDAT_nonzero) (simp add: overflowDecoder_def)
  have l: "lenInt 32 (idatLength overflowDecoder) < 0"
    by (simp add: overflowDecoder_def lenInt_def toInt_def)
  show ?thesis using Read_length_overflow[of "[0]" overflowDecoder overflowDecoder 32] n l by simp
qed

text \<open>
  Claim C9 as stated, for every \<open>Read\<close> call, fails: with an empty buffer \<open>Read\<close>
  returns \<open>(0, nil)\<close> before it looks at the remaining length, also when that length
  is negative as an \<open>int\<close>.
\<close>

theorem Read_length_overflow_counterexample:
  "lenInt 32 (idatLength overflowDecoder) < 0 \<and>
   Read 32 overflowDecoder [] = ((0, None), [], overflowDecoder)"
  by (simp add: overflowDecoder_def lenInt_def toInt_def Read_def)

lemma lenInt_le: "0 \<le> lenInt bits l \<Longrightarrow> nat (lenInt bits l) \<le> unat l"
proof -
  assume a: "0 \<le> lenInt bits l"
  then have nb: "\<not> bit (uint l) (bits - 1)"
    by (simp add: lenInt_def toInt_def)
  have e: "lenInt bits l = take_bit (bits - 1) (uint l)"
    unfolding lenInt_def toInt_def by (rule signed_take_bit_eq_if_positive) (rule nb)
  have "take_bit (bits - 1) (uint l) \<le> uint l"
    by (simp add: take_bit_int_less_eq_self_iff)
  then show ?thesis
    by (simp add: e nat_le_iff)
qed


lemma fill_take: "take (length bs) (fill bs buf) = bs"
  by (simp add: fill_def)

lemma fill_take4: "length a = 4 \<Longrightarrow> take 4 (fill (a @ b) buf) = a"
  by (simp add: fill_def)

lemma fill_drop4: "length a = 4 \<Longrightarrow> length b = 4 \<Longrightarrow> take 4 (drop 4 (fill (a @ b) buf)) = b"
  by (simp add: fill_def)

lemma length_tagIDAT: "length tagIDAT = 4"
  by (simp add: tagIDAT_def)

lemma nextIDAT_exhausted:
  assumes z: "idatLength d = 0"
      and r: "rd d = ck @ l4 @ tg @ rest" and l: "length ck = 4" "length l4 = 4" "length tg = 4"
  shows "nextIDAT d =
     (if be32 ck \<noteq> crc d
      then (Some (FormatError ''invalid checksum''), d\<lparr>rd := l4 @ tg @ rest, tmp := fill ck (tmp d)\<rparr>)
      else if tg \<noteq> tagIDAT
      then (Some (FormatError ''not enough pixel data''),
            d\<lparr>rd := rest, tmp := fill (l4 @ tg) (fill ck (tmp d)), idatLength := be32 l4\<rparr>)
      else nextIDAT (d\<lparr>rd := rest, tmp := fill (l4 @ tg) (fill ck (tmp d)),
                        idatLength := be32 l4, crc := crcUpdate 0 tagIDAT\<rparr>))"
proof -
  have rf: "readFull (rd d) 4 = (None, ck, l4 @ tg @ rest)"
    using r l by (auto simp: readFull_def)
  have t4: "take 4 (fill ck (tmp d)) = ck" using fill_take[of ck "tmp d"] l by simp
  have vc: "verifyChecksum d =
      (if be32 ck \<noteq> crc d
       then (Some (FormatError ''invalid checksum''), d\<lparr>rd := l4 @ tg @ rest, tmp := fill ck (tmp d)\<rparr>)
       else (None, d\<lparr>rd := l4 @ tg @ rest, tmp := fill ck (tmp d)\<rparr>))"
    by (simp add: verifyChecksum_def readTmp_def rf t4)
  let ?d1 = "d\<lparr>rd := l4 @ tg @ rest, tmp := fill ck (tmp d)\<rparr>"
  have rf8: "readFull (l4 @ tg @ rest) 8 = (None, l4 @ tg, rest)"
    using l by (auto simp: readFull_def)
  have rt8: "readTmp ?d1 8 = (None, d\<lparr>rd := rest, tmp := fill (l4 @ tg) (fill ck (tmp d))\<rparr>)"
    by (simp add: readTmp_def rf8)
  show ?thesis
    by (subst nextIDAT.simps) (simp add: z vc rt8 fill_take4 fill_drop4 l length_tagIDAT Let_def)
qed

lemma Read_copies_segment:
  assumes "p \<noteq> []" and "idatLength d \<noteq> 0" and "0 \<le> lenInt bits (idatLength d)"
  shows "\<exists>n err p' d'. Read bits d p = ((n, err), p', d') \<and>
           n \<le> unat (idatLength d) \<and> n \<le> length p \<and>
           take n p' = take n (rd d) \<and> drop n p' = drop n p \<and>
           rd d' = drop n (rd d) \<and>
           crc d' = crcUpdate (crc d) (take n (rd d)) \<and>
           idatLength d' = idatLength d - of_nat n"
proof -
  let ?k = "min (length p) (nat (lenInt bits (idatLength d)))"
  have k: "?k \<le> unat (idatLength d)" using lenInt_le[OF assms(3)] by simp
  show ?thesis
  proof (cases "rd d = []")
    case True
    have "Read bits d p = ((0, Some EOF), p, d\<lparr>rd := [], crc := crcUpdate (crc d) [],
              idatLength := idatLength d - 0\<rparr>)"
      using assms True by (simp add: Read_def nextIDAT_nonzero rawRead_def fill_def)
    then show ?thesis using True
      by (intro exI[of _ 0] exI[of _ "Some EOF"] exI[of _ p]
               exI[of _ "d\<lparr>rd := [], crc := crcUpdate (crc d) [], idatLength := idatLength d - 0\<rparr>"])
         simp
  next
    case False
    let ?bs = "take ?k (rd d)"
    let ?n = "length ?bs"
    let ?d' = "d\<lparr>rd := drop ?k (rd d), crc := crcUpdate (crc d) ?bs,
              idatLength := idatLength d - of_nat ?n\<rparr>"
    have n: "?n \<le> unat (idatLength d)" "?n \<le> length p" using k by simp_all
    have R: "Read bits d p = ((?n, None), fill ?bs p, ?d')"
      using assms False by (simp add: Read_def nextIDAT_nonzero rawRead_def)
    have t: "take ?n (fill ?bs p) = take ?n (rd d)"
      by (simp add: fill_def)
    have dr: "drop ?n (fill ?bs p) = drop ?n p"
      by (simp add: fill_def)
    have dk: "drop ?k (rd d) = drop ?n (rd d)"
      by (cases "?k \<le> length (rd d)") (simp_all add: min_def)
    have bs: "?bs = take ?n (rd d)"
      by (cases "?k \<le> length (rd d)") (simp_all add: min_def)
    have c: "crc ?d' = crcUpdate (crc d) (take ?n (rd d))" using bs by simp
    have r: "rd ?d' = drop ?n (rd d)" using dk by simp
    have i: "idatLength ?d' = idatLength d - of_nat ?n" by simp
    show ?thesis
      apply (rule exI[of _ ?n], rule exI[of _ None], rule exI[of _ "fill ?bs p"], rule exI[of _ ?d'])
      using R n t dr c r i by blast
  qed
qed

text \<open>
  Claim C6. \<open>Read\<close> is called with a buffer that is not empty while the current data
  chunk is exhausted, the stream holding the four checksum bytes \<open>ck\<close>, then a chunk
  header of length \<open>l4\<close> and type \<open>tg\<close>. A checksum that differs from the accumulator
  gives \<open>invalid checksum\<close>; otherwise a type other than IDAT gives
  \<open>not enough pixel data\<close>; otherwise \<open>Read\<close> continues as from the state in which
  the checksum has been reset over the new type and the remaining length is the new
  chunk's, and when that length is positive it copies \<open>n\<close> bytes of the chunk, at most
  the remaining length and at most the size of the buffer, and feeds exactly these
  bytes into the checksum.
\<close>

theorem Read_exhausted_segment:
  assumes "p \<noteq> []" and "idatLength d = 0"
      and "rd d = ck @ l4 @ tg @ rest" and "length ck = 4" and "length l4 = 4" and "length tg = 4"
  shows "(be32 ck \<noteq> crc d \<longrightarrow>
            fst (Read bits d p) = (0, Some (FormatError ''invalid checksum''))) \<and>
         (be32 ck = crc d \<and> tg \<noteq> tagIDAT \<longrightarrow>
            fst (Read bits d p) = (0, Some (FormatError ''not enough pixel data''))) \<and>
         (be32 ck = crc d \<and> tg = tagIDAT \<longrightarrow>
            Read bits d p =
            Read bits (d\<lparr>rd := rest, tmp := fill (l4 @ tg) (fill ck (tmp d)),
                         idatLength := be32 l4, crc := crcUpdate 0 tagIDAT\<rparr>) p) \<and>
         (be32 ck = crc d \<and> tg = tagIDAT \<and> be32 l4 \<noteq> 0 \<and> 0 \<le> lenInt bits (be32 l4) \<longrightarrow>
            (\<exists>n err p' d'. Read bits d p = ((n, err), p', d') \<and>
               n \<le> unat (be32 l4) \<and> n \<le> length p \<and>
               take n p' = take n rest \<and> drop n p' = drop n p \<and>
               rd d' = drop n rest \<and>
               crc d' = crcUpdate (crcUpdate 0 tagIDAT) (take n rest) \<and>
               idatLength d' = be32 l4 - of_nat n))"
proof -
  let ?d' = "d\<lparr>rd := rest, tmp := fill (l4 @ tg) (fill ck (tmp d)),
                idatLength := be32 l4, crc := crcUpdate 0 tagIDAT\<rparr>"
  note nx = nextIDAT_exhausted[OF assms(2-6)]
  have A: "be32 ck \<noteq> crc d \<longrightarrow>
            fst (Read bits d p) = (0, Some (FormatError ''invalid checksum''))"
    using assms(1) nx by (simp add: Read_def)
  have B: "be32 ck = crc d \<and> tg \<noteq> tagIDAT \<longrightarrow>
            fst (Read bits d p) = (0, Some (FormatError ''not enough pixel data''))"
    using assms(1) nx by (simp add: Read_def)
  have C: "be32 ck = crc d \<and> tg = tagIDAT \<longrightarrow> Read bits d p = Read bits ?d' p"
    using assms(1) nx by (simp add: Read_def)
  have D: "be32 ck = crc d \<and> tg = tagIDAT \<and> be32 l4 \<noteq> 0 \<and> 0 \<le> lenInt bits (be32 l4) \<longrightarrow>
            (\<exists>n err p' d'. Read bits d p = ((n, err), p', d') \<and>
               n \<le> unat (be32 l4) \<and> n \<le> length p \<and>
               take n p' = take n rest \<and> drop n p' = drop n p \<and>
               rd d' = drop n rest \<and>
               crc d' = crcUpdate (crcUpdate 0 tagIDAT) (take n rest) \<and>
               idatLength d' = be32 l4 - of_nat n)"
  proof (intro impI)
    assume h: "be32 ck = crc d \<and> tg = tagIDAT \<and> be32 l4 \<noteq> 0 \<and> 0 \<le> lenInt bits (be32 l4)"
    then have e: "Read bits d p = Read bits ?d' p" using C by blast
    have "\<exists>n err p' d''. Read bits ?d' p = ((n, err), p', d'') \<and>
           n \<le> unat (idatLength ?d') \<and> n \<le> length p \<and>
           take n p' = take n (rd ?d') \<and> drop n p' = drop n p \<and>
           rd d'' = drop n (rd ?d') \<and>
           crc d'' = crcUpdate (crc ?d') (take n (rd ?d')) \<and>
           idatLength d'' = idatLength ?d' - of_nat n"
      by (rule Read_copies_segment) (use assms(1) h in simp_all)
    then show "\<exists>n err p' d'. Read bits d p = ((n, err), p', d') \<and>
               n \<le> unat (be32 l4) \<and> n \<le> length p \<and>
               take n p' = take n rest \<and> drop n p' = drop n p \<and>
               rd d' = drop n rest \<and>
               crc d' = crcUpdate (crcUpdate 0 tagIDAT) (take n rest) \<and>
               idatLength d' = be32 l4 - of_nat n"
      by (simp add: e)
  qed
  show ?thesis using A B C D by blast
qed

text \<open>
  A state at the end of a data chunk whose checksum is 0, followed by a data chunk
  declaring two bytes.
\<close>

theorem Read_exhausted_segment_witness:
  "\<exists>n err p' d'. Read 64 exhaustedDecoder [0, 0, 0, 0, 0] = ((n, err), p', d') \<and>
     n \<le> 2 \<and> take n p' = take n [7, 8, 9] \<and>
     crc d' = crcUpdate (crcUpdate 0 tagIDAT) (take n [7, 8, 9])"
proof -
  have a: "idatLength exhaustedDecoder = 0" by (simp add: exhaustedDecoder_def)
  have b: "rd exhaustedDecoder = [0, 0, 0, 0] @ [0, 0, 0, 2] @ tagIDAT @ [7, 8, 9]"
    by (simp add: exhaustedDecoder_def tagIDAT_def)
  have c: "be32 [0, 0, 0, 0] = crc exhaustedDecoder" by (simp add: exhaustedDecoder_def be32_def)
  have l: "be32 [0, 0, 0, 2] = 2" by (simp add: be32_def)
  have i: "0 \<le> lenInt 64 2" by (simp add: lenInt_def toInt_def)
  have T: "be32 [0, 0, 0, 0] = crc exhaustedDecoder \<and> tagIDAT = tagIDAT \<and>
           be32 [0, 0, 0, 2] \<noteq> 0 \<and> 0 \<le> lenInt 64 (be32 [0, 0, 0, 2]) \<longrightarrow>
         (\<exists>n err p' d'. Read 64 exhaustedDecoder [0, 0, 0, 0, 0] = ((n, err), p', d') \<and>
               n \<le> unat (be32 [0, 0, 0, 2]) \<and> n \<le> length [0, 0, 0, 0, 0 :: byte] \<and>
               take n p' = take n [7, 8, 9] \<and> drop n p' = drop n [0, 0, 0, 0, 0] \<and>
               rd d' = drop n [7, 8, 9] \<and>
               crc d' = crcUpdate (crcUpdate 0 tagIDAT) (take n [7, 8, 9]) \<and>
               idatLength d' = be32 [0, 0, 0, 2] - of_nat n)"
    by (rule Read_exhausted_segment[of "[0, 0, 0, 0, 0]" exhaustedDecoder "[0, 0, 0, 0]"
            "[0, 0, 0, 2]" tagIDAT "[7, 8, 9]" 64, THEN conjunct2, THEN conjunct2, THEN conjunct2])
       (simp_all add: a b length_tagIDAT)
  have "be32 [0, 0, 0, 0] = crc exhaustedDecoder \<and> tagIDAT = tagIDAT \<and>
           be32 [0, 0, 0, 2] \<noteq> 0 \<and> 0 \<le> lenInt 64 (be32 [0, 0, 0, 2])"
    using c l i by simp
  with T obtain n err p' d' where
      "Read 64 exhaustedDecoder [0, 0, 0, 0, 0] = ((n, err), p', d')"
      "n \<le> unat (be32 [0, 0, 0, 2])" "take n p' = take n [7, 8, 9]"
      "crc d' = crcUpdate (crcUpdate 0 tagIDAT) (take n [7, 8, 9])"
    by blast
  then show ?thesis using l by auto
qed

section \<open>Properties of the header parser\<close>

lemma quo8_nonneg: "0 \<le> y \<Longrightarrow> quo y 8 = y div 8"
  by (cases "y = 0") (simp_all add: quo_def)

lemma quo8_neg: "y < 0 \<Longrightarrow> quo y 8 \<le> 0"
  by (simp add: quo_def mult_le_0_iff)

lemma toInt_self: "- (2 ^ (bits - 1)) \<le> x \<Longrightarrow> x < 2 ^ (bits - 1) \<Longrightarrow> toInt bits x = x"
  unfolding toInt_def by (rule signed_take_bit_int_eq_self)

lemma toInt_less: "toInt bits x < 2 ^ (bits - 1)"
  unfolding toInt_def by simp

lemma overflow_check:
  assumes x: "0 < x" and n: "0 < n"
  shows "(x \<noteq> toInt (Suc n) x \<or> toInt (Suc n) x \<noteq> quo (toInt (Suc n) (toInt (Suc n) x * 8)) 8)
         \<longleftrightarrow> 2 ^ n \<le> x * 8"
proof (cases "x < 2 ^ n")
  case False
  then have "toInt (Suc n) x \<noteq> x" using toInt_less[of "Suc n" x] by simp
  moreover have "(2::int) ^ n \<le> x * 8" using False x by simp
  ultimately show ?thesis by auto
next
  case True
  have e: "toInt (Suc n) x = x" using True x by (simp add: toInt_self)
  show ?thesis
  proof (cases "x * 8 < 2 ^ n")
    case True
    then have "toInt (Suc n) (x * 8) = x * 8" using x by (simp add: toInt_self)
    then show ?thesis using True x by (simp add: e quo8_nonneg)
  next
    case False
    let ?y = "toInt (Suc n) (x * 8)"
    have y: "?y < 2 ^ n" using toInt_less[of "Suc n" "x * 8"] by simp
    have "quo ?y 8 < x"
    proof (cases "0 \<le> ?y")
      case True
      have "?y div 8 < x" using y False by simp
      then show ?thesis using True by (simp add: quo8_nonneg)
    next
      case False
      then show ?thesis using quo8_neg[of ?y] x by simp
    qed
    then show ?thesis using False by (simp add: e)
  qed
qed


lemma fill_nth: "i < length bs \<Longrightarrow> fill bs buf ! i = bs ! i"
  by (simp add: fill_def nth_append)

lemma fill_take_le: "n \<le> length bs \<Longrightarrow> take n (fill bs buf) = take n bs"
  by (simp add: fill_def)

lemma fill_take_drop_le:
  "m + n \<le> length bs \<Longrightarrow> take n (drop m (fill bs buf)) = take n (drop m bs)"
  by (simp add: fill_def)

lemma uint8_eq: "uint (x :: byte) = 8 \<longleftrightarrow> x = 8"
  using word_uint_eq_iff[of x 8] by simp


lemma readTmp_13:
  assumes r: "rd d = pl @ rest" and l: "length pl = 13"
  shows "readTmp d 13 = (None, d\<lparr>rd := rest, tmp := fill pl (tmp d)\<rparr>)"
proof -
  have rf: "readFull (pl @ rest) 13 = (None, pl, rest)"
    using l by (auto simp: readFull_def)
  show ?thesis by (simp add: readTmp_def r rf)
qed

lemma parseIHDR_unfold:
  assumes r: "rd d = pl @ rest" and l: "length pl = 13"
      and w: "w = sint (be32 (take 4 pl))" and h: "h = sint (be32 (take 4 (drop 4 pl)))"
  shows "parseIHDR bits 13 d =
    (let d2 = d\<lparr>rd := rest, tmp := fill pl (tmp d), crc := crcUpdate (crc d) pl\<rparr> in
     if pl ! 10 \<noteq> 0 then (Some (UnsupportedError ''compression method''), d2)
     else if pl ! 11 \<noteq> 0 then (Some (UnsupportedError ''filter method''), d2)
     else if w \<le> 0 \<or> h \<le> 0 then (Some (FormatError ''non-positive dimension''), d2)
     else if toInt 64 (w * h) \<noteq> toInt bits (toInt 64 (w * h)) \<or>
             toInt bits (toInt 64 (w * h)) \<noteq>
               quo (toInt bits (toInt bits (toInt 64 (w * h)) * 8)) 8
          then (Some (UnsupportedError ''dimension overflow''), d2)
     else if \<not> (pl ! 8 = 8 \<and> pl ! 9 = 6)
          then (Some (UnsupportedError (''bit depth '' @ showNat (unat (pl ! 8)) @
                                        '', color type '' @ showNat (unat (pl ! 9)))),
                d2\<lparr>cb := cbInvalid, depth := uint (pl ! 8)\<rparr>)
     else verifyChecksum (d2\<lparr>depth := 8, cb := cbTCA8, width := w, height := h\<rparr>))"
proof -
  let ?t = "fill pl (tmp d)"
  have t: "take 13 ?t = pl" using fill_take[of pl "tmp d"] l by simp
  have n: "?t ! 8 = pl ! 8" "?t ! 9 = pl ! 9" "?t ! 10 = pl ! 10" "?t ! 11 = pl ! 11"
    using l by (simp_all add: fill_nth)
  have t4: "sint (be32 (take 4 ?t)) = w" using l w by (simp add: fill_take_le)
  have d4: "sint (be32 (take 4 (drop 4 ?t))) = h"
    using l h by (simp add: fill_take_drop_le)
  show ?thesis
    apply (simp only: parseIHDR_def readTmp_13[OF r l] if_False simp_thms prod.case option.case)
    apply (simp add: Let_def t n t4 d4 uint8_eq cbInvalid_def cbTCA8_def ctTrueColorAlpha_def)
    done
qed


text \<open>
  Claim C5. A declared length other than 13 is the format error \<open>bad IHDR length\<close>.
  With a payload \<open>pl\<close> of 13 bytes on the stream, of width \<open>w\<close> and height \<open>h\<close>
  (signed 32-bit), the checks run in this order and the first that fails gives the
  error: compression method, filter method, non-positive dimension, dimension overflow
  (exactly when \<open>w * h * 8\<close> does not fit the signed \<open>int\<close> of the platform), bit depth
  and colour type (the error names both); when all pass, the result is that of the
  checksum verification, with the width and height stored.
\<close>

theorem parseIHDR_order:
  assumes bits: "bits = 32 \<or> bits = 64"
      and r: "rd d = pl @ rest" and l: "length pl = 13"
      and w: "w = sint (be32 (take 4 pl))" and h: "h = sint (be32 (take 4 (drop 4 pl)))"
  shows "(len \<noteq> 13 \<longrightarrow>
            fst (parseIHDR bits len d) = Some (FormatError ''bad IHDR length'')) \<and>
         (pl ! 10 \<noteq> 0 \<longrightarrow>
            fst (parseIHDR bits 13 d) = Some (UnsupportedError ''compression method'')) \<and>
         (pl ! 10 = 0 \<and> pl ! 11 \<noteq> 0 \<longrightarrow>
            fst (parseIHDR bits 13 d) = Some (UnsupportedError ''filter method'')) \<and>
         (pl ! 10 = 0 \<and> pl ! 11 = 0 \<and> (w \<le> 0 \<or> h \<le> 0) \<longrightarrow>
            fst (parseIHDR bits 13 d) = Some (FormatError ''non-positive dimension'')) \<and>
         (pl ! 10 = 0 \<and> pl ! 11 = 0 \<and> 0 < w \<and> 0 < h \<and> 2 ^ (bits - 1) \<le> w * h * 8 \<longrightarrow>
            fst (parseIHDR bits 13 d) = Some (UnsupportedError ''dimension overflow'')) \<and>
         (pl ! 10 = 0 \<and> pl ! 11 = 0 \<and> 0 < w \<and> 0 < h \<and> w * h * 8 < 2 ^ (bits - 1) \<and>
          \<not> (pl ! 8 = 8 \<and> pl ! 9 = 6) \<longrightarrow>
            fst (parseIHDR bits 13 d) =
              Some (UnsupportedError (''bit depth '' @ showNat (unat (pl ! 8)) @
                                      '', color type '' @ showNat (unat (pl ! 9))))) \<and>
         (pl ! 10 = 0 \<and> pl ! 11 = 0 \<and> 0 < w \<and> 0 < h \<and> w * h * 8 < 2 ^ (bits - 1) \<and>
          pl ! 8 = 8 \<and> pl ! 9 = 6 \<longrightarrow>
            parseIHDR bits 13 d =
              verifyChecksum (d\<lparr>rd := rest, tmp := fill pl (tmp d),
                                crc := crcUpdate (crc d) pl, depth := 8, cb := cbTCA8,
                                width := w, height := h\<rparr>))"
proof -
  note u = parseIHDR_unfold[OF r l w h, of bits]
  have A: "len \<noteq> 13 \<longrightarrow> fst (parseIHDR bits len d) = Some (FormatError ''bad IHDR length'')"
    by (simp add: parseIHDR_def)
  have ov: "0 < w \<Longrightarrow> 0 < h \<Longrightarrow>
      (toInt 64 (w * h) \<noteq> toInt bits (toInt 64 (w * h)) \<or>
       toInt bits (toInt 64 (w * h)) \<noteq> quo (toInt bits (toInt bits (toInt 64 (w * h)) * 8)) 8)
      \<longleftrightarrow> 2 ^ (bits - 1) \<le> w * h * 8"
  proof -
    assume p: "0 < w" "0 < h"
    have "w < 2 ^ 31" "h < 2 ^ 31" using sint_lt[of "be32 (take 4 pl)"]
        sint_lt[of "be32 (take 4 (drop 4 pl))"] w h by simp_all
    then have "w * h < 2 ^ 31 * 2 ^ 31" using p by (intro mult_strict_mono) simp_all
    then have b: "w * h < 2 ^ 63" by simp
    have x: "0 < w * h" using p by simp
    have t: "toInt 64 (w * h) = w * h" using b x by (simp add: toInt_self)
    obtain n where n: "bits = Suc n" "0 < n" using bits by (cases bits) auto
    show ?thesis using overflow_check[OF x n(2)] by (simp add: t n)
  qed
  show ?thesis
    apply (intro conjI)
    subgoal by (rule A)
    subgoal by (simp add: u Let_def)
    subgoal by (simp add: u Let_def)
    subgoal by (auto simp: u Let_def)
    subgoal using ov by (auto simp: u Let_def)
    subgoal using ov by (auto simp: u Let_def)
    subgoal using ov by (auto simp: u Let_def)
    done
qed

text \<open>A header payload of width 0 and height 1, on a platform with 64-bit \<open>int\<close>.\<close>

theorem parseIHDR_order_witness:
  "fst (parseIHDR 64 13 zeroWidthDecoder) = Some (FormatError ''non-positive dimension'')"
proof -
  let ?pl = "[0, 0, 0, 0, 0, 0, 0, 1, 8, 6, 0, 0, 0] :: byte list"
  have r: "rd zeroWidthDecoder = ?pl @ [1, 2, 3, 4]" by (simp add: zeroWidthDecoder_def)
  have w: "sint (be32 (take 4 ?pl)) = 0" by (simp add: be32_def)
  have "?pl ! 10 = 0 \<and> ?pl ! 11 = 0 \<and>
        (sint (be32 (take 4 ?pl)) \<le> 0 \<or> sint (be32 (take 4 (drop 4 ?pl))) \<le> 0)"
    using w by simp
  then show ?thesis
    using parseIHDR_order[of 64 zeroWidthDecoder ?pl "[1, 2, 3, 4]"
            "sint (be32 (take 4 ?pl))" "sint (be32 (take 4 (drop 4 ?pl)))" 13] r
    by simp
qed

section \<open>Properties of the chunk-order state machine\<close>



lemma length_tagIHDR: "length tagIHDR = 4"
  by (simp add: tagIHDR_def)






end
